theory Spec2Isabelle
  imports Main "HOL-Library.Sublist"
begin

section \<open>Python string helpers used by convert.py\<close>

text \<open>
  Python strings are modelled as \<open>string\<close>; a character stands for the code point of
  the same number, so only code points below 256 are covered.
\<close>

definition newline :: char where
  "newline = CHR 0x0A"

definition is_space :: "char \<Rightarrow> bool" where
  \<comment> \<open>\<open>str.isspace\<close> on the code points below 256\<close>
  "is_space c = (c \<in> {CHR 0x09, CHR 0x0A, CHR 0x0B, CHR 0x0C, CHR 0x0D,
                       CHR 0x1C, CHR 0x1D, CHR 0x1E, CHR 0x1F, CHR 0x20,
                       CHR 0x85, CHR 0xA0})"

definition strip :: "string \<Rightarrow> string" where
  \<comment> \<open>\<open>str.strip()\<close>: whitespace removed at both ends\<close>
  "strip s = rev (dropWhile is_space (rev (dropWhile is_space s)))"

fun readlines :: "string \<Rightarrow> string list" where
  \<comment> \<open>\<open>file.readlines()\<close> on the text of the file: every line keeps its newline\<close>
  "readlines [] = []"
| "readlines (c # cs) =
     (if c = newline then [c] # readlines cs
      else (case readlines cs of [] \<Rightarrow> [[c]] | l # ls \<Rightarrow> (c # l) # ls))"

section \<open>parse: the front-matter split\<close>

definition YAML_BOUNDARY :: string where
  "YAML_BOUNDARY = ''---''"

record parse_state =
  raw_yaml :: string
  markdown :: string
  in_yaml :: bool

definition parse_init :: parse_state where
  "parse_init = \<lparr>raw_yaml = [], markdown = [], in_yaml = True\<rparr>"

definition parse_line :: "parse_state \<Rightarrow> string \<Rightarrow> parse_state" where
  \<comment> \<open>one iteration of the loop over the lines; \<open>continue\<close> skips both appends\<close>
  "parse_line s line =
     (if strip line = YAML_BOUNDARY \<and> in_yaml s \<and> raw_yaml s \<noteq> [] then s\<lparr>in_yaml := False\<rparr>
      else if in_yaml s then s\<lparr>raw_yaml := raw_yaml s @ line\<rparr>
      else s\<lparr>markdown := markdown s @ line\<rparr>)"

definition parse_loop :: "string list \<Rightarrow> parse_state" where
  "parse_loop ls = foldl parse_line parse_init ls"

definition is_boundary :: "string \<Rightarrow> bool" where
  \<comment> \<open>the test \<open>line.strip() == YAML_BOUNDARY\<close>\<close>
  "is_boundary line = (strip line = YAML_BOUNDARY)"

datatype error = YAMLError | AttributeError | ValueError

definition parse :: "(string \<Rightarrow> error + 'fm) \<Rightarrow> string \<Rightarrow> error + ('fm \<times> string)" where
  \<comment> \<open>\<open>yaml_load\<close> is \<open>yaml.load(_, Loader=yaml.SafeLoader)\<close>, which raises on malformed input\<close>
  "parse yaml_load text =
     (let s = parse_loop (readlines text) in
      case yaml_load (raw_yaml s) of
        Inl e \<Rightarrow> Inl e
      | Inr front_matter \<Rightarrow> Inr (front_matter, strip (markdown s)))"

section \<open>More string helpers\<close>

fun split_char :: "char \<Rightarrow> string \<Rightarrow> string list" where
  \<comment> \<open>\<open>str.split(sep)\<close> for a separator of one character: never an empty list\<close>
  "split_char sep [] = [[]]"
| "split_char sep (c # cs) =
     (if c = sep then [] # split_char sep cs
      else (case split_char sep cs of [] \<Rightarrow> [[c]] | p # ps \<Rightarrow> (c # p) # ps))"

fun join :: "string \<Rightarrow> string list \<Rightarrow> string" where
  \<comment> \<open>\<open>sep.join(items)\<close>\<close>
  "join sep [] = []"
| "join sep [x] = x"
| "join sep (x # y # ys) = x @ sep @ join sep (y # ys)"

definition basename :: "string \<Rightarrow> string" where
  \<comment> \<open>\<open>os.path.basename\<close> of posixpath: what follows the last slash\<close>
  "basename p = rev (takeWhile (\<lambda>c. c \<noteq> CHR ''/'') (rev p))"

definition is_digit :: "char \<Rightarrow> bool" where
  "is_digit c = (c \<in> set ''0123456789'')"

definition digit_val :: "char \<Rightarrow> int" where
  "digit_val c = int (of_char c) - 48"

definition is_int_space :: "char \<Rightarrow> bool" where
  \<comment> \<open>the whitespace \<open>int()\<close> skips around a literal, on the code points below 256\<close>
  "is_int_space c = (c \<in> {CHR 0x09, CHR 0x0A, CHR 0x0B, CHR 0x0C, CHR 0x0D, CHR 0x20,
                           CHR 0x85, CHR 0xA0})"

definition int_max_str_digits :: nat where
  \<comment> \<open>\<open>sys.get_int_max_str_digits()\<close>: the default of CPython 3.11 and later\<close>
  "int_max_str_digits = 4300"

definition int_digits :: "string \<Rightarrow> int option" where
  \<comment> \<open>decimal digits, single underscores allowed between digits; more digits than
      \<open>int_max_str_digits\<close> (underscores not counted) make \<open>int()\<close> raise ValueError\<close>
  "int_digits s =
     (let groups = split_char CHR ''_'' s in
      if (\<forall>g \<in> set groups. g \<noteq> [] \<and> (\<forall>c \<in> set g. is_digit c))
         \<and> length (concat groups) \<le> int_max_str_digits
      then Some (foldl (\<lambda>n c. 10 * n + digit_val c) 0 (concat groups))
      else None)"

definition py_int :: "string \<Rightarrow> int option" where
  \<comment> \<open>\<open>int(s)\<close> for a string in base 10; \<open>None\<close> where Python raises ValueError\<close>
  "py_int s =
     (let t = rev (dropWhile is_int_space (rev (dropWhile is_int_space s))) in
      case t of
        [] \<Rightarrow> None
      | c # cs \<Rightarrow>
          if c = CHR ''-'' then map_option uminus (int_digits cs)
          else if c = CHR ''+'' then int_digits cs
          else int_digits t)"

datatype fmt_mode = Literal | Field string

fun format_field :: "fmt_mode \<Rightarrow> string \<Rightarrow> string \<Rightarrow> string \<Rightarrow> error + string" where
  \<comment> \<open>\<open>template.format(name=v)\<close>: doubled braces are literal braces, \<open>{name}\<close> is
      replaced, any other field or a single brace raises (all merged into ValueError)\<close>
  "format_field Literal name v [] = Inr []"
| "format_field (Field acc) name v [] = Inl ValueError"
| "format_field Literal name v (c # cs) =
     (if c = CHR ''{'' then
        (case cs of
           d # ds \<Rightarrow>
             if d = CHR ''{'' then map_sum id ((#) c) (format_field Literal name v ds)
             else format_field (Field []) name v cs
         | [] \<Rightarrow> Inl ValueError)
      else if c = CHR ''}'' then
        (case cs of
           d # ds \<Rightarrow>
             if d = CHR ''}'' then map_sum id ((#) c) (format_field Literal name v ds)
             else Inl ValueError
         | [] \<Rightarrow> Inl ValueError)
      else map_sum id ((#) c) (format_field Literal name v cs))"
| "format_field (Field acc) name v (c # cs) =
     (if c = CHR ''}'' then
        (if acc = name then map_sum id ((@) v) (format_field Literal name v cs)
         else Inl ValueError)
      else format_field (Field (acc @ [c])) name v cs)"

section \<open>ConfluenceRenderer\<close>

record renderer =
  attachments :: "string list"
  authors :: "string list"
  has_toc :: bool
  sidebar :: bool

definition ConfluenceRenderer :: "string list option \<Rightarrow> bool \<Rightarrow> renderer" where
  \<comment> \<open>\<open>__init__\<close>: \<open>None\<close> for the authors becomes the empty list\<close>
  "ConfluenceRenderer authors_arg sidebar_arg =
     \<lparr>attachments = [],
      authors = (case authors_arg of None \<Rightarrow> [] | Some ks \<Rightarrow> ks),
      has_toc = False,
      sidebar = sidebar_arg\<rparr>"

definition toc_markup :: string where
  \<comment> \<open>the dedented literal of \<open>layout\<close>\<close>
  \<open>toc_markup =
     ''\<newline><h1>Table of Contents</h1>\<newline><p><ac:structured-macro ac:name="toc" ac:schema-version="1">\<newline>    <ac:parameter ac:name="exclude">^(Authors|Table of Contents)$</ac:parameter>\<newline>    <!-- <ac:parameter ac:name="outline">true</ac:parameter> -->\<newline></ac:structured-macro></p>''\<close>

definition column :: "string \<Rightarrow> string \<Rightarrow> string" where
  \<comment> \<open>\<open>column.format(width=w, content=c)\<close> on the dedented literal\<close>
  \<open>column w c =
     ''\<newline><ac:structured-macro ac:name="column" ac:schema-version="1">\<newline>    <ac:parameter ac:name="width">'' @ w @
     ''</ac:parameter>\<newline>    <ac:rich-text-body>'' @ c @
     ''</ac:rich-text-body>\<newline></ac:structured-macro>''\<close>

definition author_template :: "string \<Rightarrow> string" where
  \<comment> \<open>\<open>author_template.format(user_key=k)\<close>; the literal is not dedented\<close>
  \<open>author_template k =
     ''<ac:structured-macro ac:name="profile-picture" ac:schema-version="1">\<newline>                <ac:parameter ac:name="User"><ri:user ri:userkey="'' @ k @
     ''" /></ac:parameter>\<newline>            </ac:structured-macro>&nbsp;\<newline>            <ac:link><ri:user ri:userkey="'' @ k @
     ''" /></ac:link>''\<close>

definition render_authors :: "renderer \<Rightarrow> string" where
  "render_authors r =
     (let author_content = join ''<br />'' (map author_template (authors r))
      in ''<h1>Authors</h1><p>'' @ author_content @ ''</p>'')"

definition layout :: "string \<Rightarrow> renderer \<Rightarrow> string" where
  "layout content r =
     (let toc = (if \<not> has_toc r then [] else toc_markup);
          authors_html = render_authors r
      in if sidebar r
         then column ''30%'' (toc @ authors_html) @ column ''800px'' content
         else toc @ content @ authors_html)"

definition header ::
  "(string \<Rightarrow> nat \<Rightarrow> string option \<Rightarrow> string) \<Rightarrow> string \<Rightarrow> nat \<Rightarrow> string option \<Rightarrow> renderer
   \<Rightarrow> string \<times> renderer" where
  \<comment> \<open>\<open>super_header\<close> is \<open>mistune.Renderer.header\<close>\<close>
  "header super_header text level raw r = (super_header text level raw, r\<lparr>has_toc := True\<rparr>)"

definition block_code :: "string \<Rightarrow> string option \<Rightarrow> string" where
  \<comment> \<open>\<open>.format(c=code, l=lang or '')\<close> on the dedented literal\<close>
  \<open>block_code code lang =
     ''<ac:structured-macro ac:name="code" ac:schema-version="1">\<newline>    <ac:parameter ac:name="language">'' @
     (case lang of None \<Rightarrow> [] | Some l \<Rightarrow> l) @
     ''</ac:parameter>\<newline>    <ac:plain-text-body><![CDATA['' @ code @
     '']]></ac:plain-text-body>\<newline></ac:structured-macro>\<newline>''\<close>

definition unpack_size :: "string \<Rightarrow> error + (string \<times> string option)" where
  \<comment> \<open>the \<open>if 'x' in parts\<close> statement: unpacking \<open>parts.split('x')\<close> into two names
      raises ValueError unless the list has exactly two items\<close>
  "unpack_size parts =
     (if CHR ''x'' \<in> set parts
      then (case split_char CHR ''x'' parts of
              [h, w] \<Rightarrow> Inr (h, Some w)
            | _ \<Rightarrow> Inl ValueError)
      else Inr (parts, None))"

definition extract_height_width :: "string \<Rightarrow> error + (string option \<times> string option)" where
  \<comment> \<open>the unpacking is outside the \<open>try\<close>; inside it, a failing \<open>int()\<close> returns
      \<open>(None, None)\<close>\<close>
  "extract_height_width alt_text =
     (let parts = last (split_char CHR ''|'' alt_text) in
      case unpack_size parts of
        Inl e \<Rightarrow> Inl e
      | Inr (height, width) \<Rightarrow>
          if (height \<noteq> [] \<and> py_int height = None)
             \<or> (case width of None \<Rightarrow> False | Some w \<Rightarrow> w \<noteq> [] \<and> py_int w = None)
          then Inr (None, None)
          else Inr (Some height, width))"

definition image ::
  "(string \<Rightarrow> error + string) \<Rightarrow> string \<Rightarrow> string option \<Rightarrow> string \<Rightarrow> renderer
   \<Rightarrow> error + (string \<times> renderer)" where
  \<comment> \<open>\<open>netloc_of src\<close> is \<open>urlparse(src).netloc\<close>, which may raise ValueError\<close>
  \<open>image netloc_of src title alt_text r =
     (case netloc_of src of
        Inl e \<Rightarrow> Inl e
      | Inr netloc \<Rightarrow>
          let is_external = (netloc \<noteq> []) in
          (case extract_height_width alt_text of
            Inl e \<Rightarrow> Inl e
          | Inr (height, width) \<Rightarrow>
              let t0 = ''<ac:image'';
                  t1 = (case height of
                          None \<Rightarrow> t0
                        | Some h \<Rightarrow> if h \<noteq> [] then t0 @ '' ac:height="'' @ h @ ''"'' else t0);
                  t2 = (case width of
                          None \<Rightarrow> t1
                        | Some w \<Rightarrow> if w \<noteq> [] then t1 @ '' ac:width="'' @ w @ ''"'' else t1);
                  tag_template = t2 @ ''>{image_tag}</ac:image>'';
                  url_tag = ''<ri:url ri:value="'' @ src @ ''" />'';
                  image_tag = (if \<not> is_external
                               then ''<ri:attachment ri:filename="'' @ basename src @ ''" />''
                               else url_tag);
                  r' = (if \<not> is_external then r\<lparr>attachments := attachments r @ [src]\<rparr> else r)
              in (case format_field Literal ''image_tag'' image_tag tag_template of
                    Inl e \<Rightarrow> Inl e
                  | Inr tag \<Rightarrow> Inr (tag, r'))))\<close>

section \<open>The calls of the Markdown parser\<close>

text \<open>
  \<open>mistune.markdown(markdown, renderer=renderer)\<close> is outside the repository. It calls the
  methods of the renderer in document order and assembles the page body from what they
  return. Only the three overridden methods touch the renderer's state, so one run of the
  parser is represented by the list of its calls to them, with the arguments it passed,
  and by the function that assembles the body from their results.
\<close>

datatype call =
    Header string nat "string option"
  | BlockCode string "string option"
  | Image string "string option" string

record library =
  urlparse_netloc :: "string \<Rightarrow> error + string"
  mistune_header :: "string \<Rightarrow> nat \<Rightarrow> string option \<Rightarrow> string"

definition render_call :: "library \<Rightarrow> call \<Rightarrow> renderer \<Rightarrow> error + (string \<times> renderer)" where
  "render_call lib c r =
     (case c of
        Header text level raw \<Rightarrow> Inr (header (mistune_header lib) text level raw r)
      | BlockCode code lang \<Rightarrow> Inr (block_code code lang, r)
      | Image src title alt_text \<Rightarrow> image (urlparse_netloc lib) src title alt_text r)"

fun render_calls :: "library \<Rightarrow> call list \<Rightarrow> renderer \<Rightarrow> error + (string list \<times> renderer)" where
  "render_calls lib [] r = Inr ([], r)"
| "render_calls lib (c # cs) r =
     (case render_call lib c r of
        Inl e \<Rightarrow> Inl e
      | Inr (out, r') \<Rightarrow>
          (case render_calls lib cs r' of
             Inl e \<Rightarrow> Inl e
           | Inr (outs, r'') \<Rightarrow> Inr (out # outs, r'')))"

section \<open>convtoconf\<close>

text \<open>
  The front matter is the loaded mapping, seen through the two keys \<open>convtoconf\<close> reads,
  with values of the types the metadata format gives them: \<open>None\<close> is an absent key,
  and \<open>author_keys\<close> may be present and null.
\<close>

record front_matter =
  author_keys :: "string list option option"
  sidebar_key :: "bool option"

datatype yaml_doc = YNone | YMapping front_matter | YOther

definition convtoconf ::
  "library \<Rightarrow> (string \<Rightarrow> call list \<times> (string list \<Rightarrow> string)) \<Rightarrow> string \<Rightarrow> yaml_doc
   \<Rightarrow> error + (string \<times> string list)" where
  "convtoconf lib mistune_markdown markdown_text doc =
     (case (case doc of
              YNone \<Rightarrow> Inr \<lparr>author_keys = None, sidebar_key = None\<rparr>
            | YMapping m \<Rightarrow> Inr m
            | YOther \<Rightarrow> Inl AttributeError) of
        Inl e \<Rightarrow> Inl e
      | Inr fm \<Rightarrow>
          let keys = (case author_keys fm of None \<Rightarrow> Some [] | Some v \<Rightarrow> v);
              side = (case sidebar_key fm of None \<Rightarrow> False | Some b \<Rightarrow> b);
              r = ConfluenceRenderer keys side
          in case mistune_markdown markdown_text of
               (calls, assemble) \<Rightarrow>
                 (case render_calls lib calls r of
                    Inl e \<Rightarrow> Inl e
                  | Inr (outs, r') \<Rightarrow> Inr (layout (assemble outs) r', attachments r')))"

section \<open>Notions used to state the properties\<close>

fun image_srcs :: "call list \<Rightarrow> string list" where
  \<comment> \<open>the \<open>src\<close> arguments of the image calls, in call order\<close>
  "image_srcs [] = []"
| "image_srcs (Image src title alt_text # cs) = src # image_srcs cs"
| "image_srcs (c # cs) = image_srcs cs"

definition is_header :: "call \<Rightarrow> bool" where
  "is_header c = (case c of Header text level raw \<Rightarrow> True | _ \<Rightarrow> False)"

definition size_attributes :: "string option \<Rightarrow> string option \<Rightarrow> string" where
  \<comment> \<open>the attributes \<open>image\<close> appends to \<open><ac:image\<close> for a height and a width\<close>
  \<open>size_attributes height width =
     (case height of None \<Rightarrow> [] | Some h \<Rightarrow> if h \<noteq> [] then '' ac:height="'' @ h @ ''"'' else []) @
     (case width of None \<Rightarrow> [] | Some w \<Rightarrow> if w \<noteq> [] then '' ac:width="'' @ w @ ''"'' else [])\<close>




fun after_first :: "string \<Rightarrow> string \<Rightarrow> string option" where
  \<comment> \<open>what follows the first occurrence of \<open>needle\<close>\<close>
  "after_first needle [] = (if needle = [] then Some [] else None)"
| "after_first needle (c # cs) =
     (if prefix needle (c # cs) then Some (drop (length needle) (c # cs))
      else after_first needle cs)"

fun before_first :: "string \<Rightarrow> string \<Rightarrow> string option" where
  \<comment> \<open>what precedes the first occurrence of \<open>needle\<close>\<close>
  "before_first needle [] = (if needle = [] then Some [] else None)"
| "before_first needle (c # cs) =
     (if prefix needle (c # cs) then Some []
      else map_option ((#) c) (before_first needle cs))"

definition cdata_text :: "string \<Rightarrow> string option" where
  \<comment> \<open>the character data an XML reader takes from the first CDATA section: the section
      opens at \<open><![CDATA[\<close> and ends at the first \<open>]]>\<close> after it\<close>
  \<open>cdata_text xml =
     (case after_first ''<![CDATA['' xml of
        None \<Rightarrow> None
      | Some rest \<Rightarrow> before_first '']]>'' rest)\<close>

section \<open>Example inputs\<close>

definition example_netloc :: "string \<Rightarrow> error + string" where
  \<comment> \<open>stands for \<open>urlparse(src).netloc\<close> on the examples: the host after \<open>http://\<close>\<close>
  "example_netloc src =
     (if prefix ''http://'' src then Inr (takeWhile (\<lambda>c. c \<noteq> CHR ''/'') (drop 7 src))
      else Inr [])"

definition example_header :: "string \<Rightarrow> nat \<Rightarrow> string option \<Rightarrow> string" where
  \<comment> \<open>stands for the default heading of mistune on the examples, which use level 1\<close>
  "example_header text level raw = ''<h1>'' @ text @ ''</h1>\<newline>''"

definition example_library :: library where
  "example_library = \<lparr>urlparse_netloc = example_netloc, mistune_header = example_header\<rparr>"

definition rejecting_load :: "string \<Rightarrow> error + yaml_doc" where
  \<comment> \<open>stands for \<open>yaml.load\<close> on a buffer that is not well-formed YAML\<close>
  "rejecting_load buffer = Inl YAMLError"

definition example_markdown :: "string \<Rightarrow> call list \<times> (string list \<Rightarrow> string)" where
  \<comment> \<open>stands for the parser on the examples: a heading, then a paragraph with one image\<close>
  "example_markdown text =
     ([Header ''Title'' 1 (Some ''Title''), Image ''local.png'' None ''img|100''],
      \<lambda>outs. outs ! 0 @ ''<p>Hello '' @ outs ! 1 @ ''</p>\<newline>'')"


section \<open>The front-matter split\<close>

lemma concat_readlines: "concat (readlines t) = t"
  by (induction t) (auto split: list.splits)

lemma readlines_nonempty: "l \<in> set (readlines t) \<Longrightarrow> l \<noteq> []"
  by (induction t arbitrary: l) (auto split: list.splits if_splits)

lemma strip_Nil: "strip [] = []"
  by (simp add: strip_def)

lemma boundary_nonempty: "is_boundary l \<Longrightarrow> l \<noteq> []"
  by (auto simp: is_boundary_def strip_Nil YAML_BOUNDARY_def)

lemma loop_in_yaml:
  "in_yaml s \<Longrightarrow> \<forall>l \<in> set ls. \<not> is_boundary l \<Longrightarrow>
   foldl parse_line s ls = s\<lparr>raw_yaml := raw_yaml s @ concat ls\<rparr>"
  by (induction ls arbitrary: s) (simp_all add: parse_line_def is_boundary_def)

lemma loop_in_markdown:
  "\<not> in_yaml s \<Longrightarrow> foldl parse_line s ls = s\<lparr>markdown := markdown s @ concat ls\<rparr>"
  by (induction ls arbitrary: s) (simp_all add: parse_line_def)

lemma first_line: "parse_line parse_init l = parse_init\<lparr>raw_yaml := l\<rparr>"
  by (simp add: parse_line_def parse_init_def)

lemma loop_closed:
  assumes "first \<noteq> []" "\<forall>l \<in> set mid. \<not> is_boundary l" "is_boundary d"
  shows "parse_loop (first # mid @ d # post) =
         \<lparr>raw_yaml = first @ concat mid, markdown = concat post, in_yaml = False\<rparr>"
proof -
  have a: "foldl parse_line parse_init (first # mid) = parse_init\<lparr>raw_yaml := first @ concat mid\<rparr>"
  proof -
    have "foldl parse_line parse_init (first # mid) =
          foldl parse_line (parse_init\<lparr>raw_yaml := first\<rparr>) mid"
      by (simp add: first_line)
    also have "\<dots> = parse_init\<lparr>raw_yaml := first @ concat mid\<rparr>"
      using assms(2) by (subst loop_in_yaml) (simp_all add: parse_init_def)
    finally show ?thesis .
  qed
  have b: "parse_line (parse_init\<lparr>raw_yaml := first @ concat mid\<rparr>) d =
           \<lparr>raw_yaml = first @ concat mid, markdown = [], in_yaml = False\<rparr>"
    using assms(1,3) by (simp add: parse_line_def parse_init_def is_boundary_def)
  have "parse_loop (first # mid @ d # post) =
        foldl parse_line (parse_line (foldl parse_line parse_init (first # mid)) d) post"
    by (simp add: parse_loop_def)
  then show ?thesis
    by (simp only: a b) (simp add: loop_in_markdown)
qed

lemma loop_open:
  assumes "\<forall>l \<in> set ls. \<not> is_boundary l"
  shows "parse_loop ls = \<lparr>raw_yaml = concat ls, markdown = [], in_yaml = True\<rparr>"
  using loop_in_yaml[of parse_init ls] assms by (simp add: parse_loop_def parse_init_def)

lemma sublist_concat_member: "l \<in> set ls \<Longrightarrow> sublist l (concat ls)"
proof -
  assume "l \<in> set ls"
  then obtain as bs where "ls = as @ l # bs"
    by (auto simp: in_set_conv_decomp)
  then have "concat ls = concat as @ l @ concat bs"
    by simp
  then show ?thesis
    by (metis sublist_appendI)
qed

text \<open>
  C2 (as amended). A document whose first line is a \<open>---\<close> line and which has a second
  \<open>---\<close> line, with no \<open>---\<close> line in between: the metadata buffer handed to the YAML
  loader is the first \<open>---\<close> line followed by the lines between the two delimiters (the
  first delimiter line is kept in the buffer), and the body is everything after the
  second \<open>---\<close> line with whitespace stripped at both ends.
\<close>

theorem split_between_delimiters:
  assumes "readlines text = d1 # mid @ d2 # post"
    and "is_boundary d1"
    and "\<forall>l \<in> set mid. \<not> is_boundary l"
    and "is_boundary d2"
  shows "raw_yaml (parse_loop (readlines text)) = d1 @ concat mid \<and>
         parse yaml_load text =
           (case yaml_load (d1 @ concat mid) of
              Inl e \<Rightarrow> Inl e
            | Inr fm \<Rightarrow> Inr (fm, strip (concat post)))"
proof -
  have "d1 \<noteq> []"
    using assms(2) by (rule boundary_nonempty)
  then have "parse_loop (readlines text) =
             \<lparr>raw_yaml = d1 @ concat mid, markdown = concat post, in_yaml = False\<rparr>"
    using assms by (simp add: loop_closed)
  then show ?thesis
    by (simp add: parse_def split: sum.split)
qed

theorem split_between_delimiters_witness:
  "raw_yaml (parse_loop (readlines ''---\<newline>a: 1\<newline>---\<newline>body\<newline>'')) = ''---\<newline>a: 1\<newline>'' \<and>
   parse Inr ''---\<newline>a: 1\<newline>---\<newline>body\<newline>'' = Inr (''---\<newline>a: 1\<newline>'', ''body'')"
proof -
  have r: "readlines ''---\<newline>a: 1\<newline>---\<newline>body\<newline>'' =
           ''---\<newline>'' # [''a: 1\<newline>''] @ ''---\<newline>'' # [''body\<newline>'']"
    by code_simp
  have b: "is_boundary ''---\<newline>''"
    by code_simp
  have m: "\<forall>l \<in> set [''a: 1\<newline>'']. \<not> is_boundary l"
    by code_simp
  have s: "strip ''body\<newline>'' = ''body''"
    by code_simp
  have c: "''---\<newline>'' @ concat [''a: 1\<newline>''] = ''---\<newline>a: 1\<newline>''" "concat [''body\<newline>''] = ''body\<newline>''"
    by simp_all
  note t = split_between_delimiters [OF r b m b, of Inr]
  show ?thesis
    using t by (simp only: c s sum.case)
qed

text \<open>
  C2, the claim as stated, fails: for the document below the metadata buffer is not the
  text between the two delimiters, it starts with the first delimiter line.
\<close>

theorem split_first_delimiter_kept:
  "raw_yaml (parse_loop (readlines ''---\<newline>a: 1\<newline>---\<newline>body\<newline>'')) = ''---\<newline>a: 1\<newline>'' \<and>
   raw_yaml (parse_loop (readlines ''---\<newline>a: 1\<newline>---\<newline>body\<newline>'')) \<noteq> ''a: 1\<newline>''"
  by code_simp

text \<open>
  C9. A document none of whose lines is a \<open>---\<close> line: the loop ends with the whole
  input in the metadata buffer and an empty body, still inside the metadata block; the
  split itself has no failing branch, and \<open>parse\<close> hands the whole input to the loader
  and returns the empty body.
\<close>

theorem split_without_delimiter:
  assumes "\<forall>l \<in> set (readlines text). \<not> is_boundary l"
  shows "parse_loop (readlines text) = \<lparr>raw_yaml = text, markdown = [], in_yaml = True\<rparr> \<and>
         parse yaml_load text =
           (case yaml_load text of Inl e \<Rightarrow> Inl e | Inr fm \<Rightarrow> Inr (fm, []))"
proof -
  have "parse_loop (readlines text) = \<lparr>raw_yaml = text, markdown = [], in_yaml = True\<rparr>"
    using loop_open [OF assms] by (simp add: concat_readlines)
  then show ?thesis
    by (simp add: parse_def strip_Nil split: sum.split)
qed

theorem split_without_delimiter_witness:
  "parse_loop (readlines ''# Title\<newline>Hello'') =
     \<lparr>raw_yaml = ''# Title\<newline>Hello'', markdown = [], in_yaml = True\<rparr> \<and>
   parse Inr ''# Title\<newline>Hello'' = Inr (''# Title\<newline>Hello'', [])"
proof -
  have "\<forall>l \<in> set (readlines ''# Title\<newline>Hello''). \<not> is_boundary l"
    by code_simp
  from split_without_delimiter [OF this, of Inr] show ?thesis
    by (simp only: sum.case)
qed

text \<open>
  C10. The line that closes the metadata block is the first \<open>---\<close> line after the first
  line of the document. It is the only line dropped: the metadata buffer is every line
  before it, the body buffer is every line after it, so the input is the metadata
  buffer, the closing line and the body buffer in this order, and every later line,
  \<open>---\<close> lines included, is in the body buffer as it was read. The body returned is that
  buffer with whitespace stripped at both ends.
\<close>

theorem split_consumes_one_delimiter:
  assumes "readlines text = first # mid @ d # post"
    and "\<forall>l \<in> set mid. \<not> is_boundary l"
    and "is_boundary d"
  shows "parse_loop (readlines text) =
           \<lparr>raw_yaml = first @ concat mid, markdown = concat post, in_yaml = False\<rparr> \<and>
         text = (first @ concat mid) @ d @ concat post \<and>
         (\<forall>l \<in> set post. sublist l (markdown (parse_loop (readlines text)))) \<and>
         parse yaml_load text =
           (case yaml_load (first @ concat mid) of
              Inl e \<Rightarrow> Inl e
            | Inr fm \<Rightarrow> Inr (fm, strip (concat post)))"
proof -
  have "first \<in> set (readlines text)"
    using assms(1) by simp
  then have "first \<noteq> []"
    by (rule readlines_nonempty)
  then have loop: "parse_loop (readlines text) =
             \<lparr>raw_yaml = first @ concat mid, markdown = concat post, in_yaml = False\<rparr>"
    using assms by (simp add: loop_closed)
  have "concat (readlines text) = (first @ concat mid) @ d @ concat post"
    using assms(1) by simp
  then have whole: "text = (first @ concat mid) @ d @ concat post"
    by (simp only: concat_readlines)
  show ?thesis
    using loop whole by (simp add: parse_def sublist_concat_member split: sum.split)
qed

theorem split_consumes_one_delimiter_witness:
  "parse_loop (readlines ''a: 1\<newline>---\<newline>x\<newline>---\<newline>y\<newline>'') =
     \<lparr>raw_yaml = ''a: 1\<newline>'', markdown = ''x\<newline>---\<newline>y\<newline>'', in_yaml = False\<rparr> \<and>
   parse Inr ''a: 1\<newline>---\<newline>x\<newline>---\<newline>y\<newline>'' = Inr (''a: 1\<newline>'', ''x\<newline>---\<newline>y'')"
proof -
  have r: "readlines ''a: 1\<newline>---\<newline>x\<newline>---\<newline>y\<newline>'' =
           ''a: 1\<newline>'' # [] @ ''---\<newline>'' # [''x\<newline>'', ''---\<newline>'', ''y\<newline>'']"
    by code_simp
  have m: "\<forall>l \<in> set ([] :: string list). \<not> is_boundary l"
    by simp
  have b: "is_boundary ''---\<newline>''"
    by code_simp
  have s: "strip ''x\<newline>---\<newline>y\<newline>'' = ''x\<newline>---\<newline>y''"
    by code_simp
  have c: "concat [''x\<newline>'', ''---\<newline>'', ''y\<newline>''] = ''x\<newline>---\<newline>y\<newline>''"
    "''a: 1\<newline>'' @ concat [] = ''a: 1\<newline>''"
    by simp_all
  note t = split_consumes_one_delimiter [OF r m b, of Inr]
  from t have "parse_loop (readlines ''a: 1\<newline>---\<newline>x\<newline>---\<newline>y\<newline>'') =
     \<lparr>raw_yaml = ''a: 1\<newline>'' @ concat [],
      markdown = concat [''x\<newline>'', ''---\<newline>'', ''y\<newline>''], in_yaml = False\<rparr>"
    by (rule conjunct1)
  moreover from t have "parse Inr ''a: 1\<newline>---\<newline>x\<newline>---\<newline>y\<newline>'' =
    (case Inr (''a: 1\<newline>'' @ concat []) of
       Inl e \<Rightarrow> Inl e
     | Inr fm \<Rightarrow> Inr (fm, strip (concat [''x\<newline>'', ''---\<newline>'', ''y\<newline>''])))"
    by (elim conjE)
  ultimately show ?thesis
    by (simp only: s c sum.case)
qed

section \<open>The layout\<close>

lemma join_butlast:
  "xs \<noteq> [] \<Longrightarrow> join sep xs = concat (map (\<lambda>x. x @ sep) (butlast xs)) @ last xs"
  by (induction sep xs rule: join.induct) simp_all

text \<open>
  C7. With \<open>sidebar\<close> true, \<open>layout\<close> returns two column macros: first the column of
  width \<open>30%\<close> holding the table-of-contents fragment followed by the authors fragment,
  then the column of width \<open>800px\<close> holding the body unchanged. With \<open>sidebar\<close> false it
  returns the table-of-contents fragment, the body and the authors fragment, in this
  order and with no column around them. The table-of-contents fragment is empty when
  no header was rendered.
\<close>

theorem layout_columns:
  \<open>layout body r =
     (if sidebar r
      then ''\<newline><ac:structured-macro ac:name="column" ac:schema-version="1">\<newline>    <ac:parameter ac:name="width">30%</ac:parameter>\<newline>    <ac:rich-text-body>'' @
           (if has_toc r then toc_markup else []) @ render_authors r @
           ''</ac:rich-text-body>\<newline></ac:structured-macro>'' @
           ''\<newline><ac:structured-macro ac:name="column" ac:schema-version="1">\<newline>    <ac:parameter ac:name="width">800px</ac:parameter>\<newline>    <ac:rich-text-body>'' @
           body @
           ''</ac:rich-text-body>\<newline></ac:structured-macro>''
      else (if has_toc r then toc_markup else []) @ body @ render_authors r)\<close>
  by (simp add: layout_def column_def)

theorem layout_columns_witness:
  \<open>layout ''<p>Hi</p>'' \<lparr>attachments = [], authors = [], has_toc = False, sidebar = False\<rparr> =
     ''<p>Hi</p><h1>Authors</h1><p></p>'' \<and>
   layout ''<p>Hi</p>'' \<lparr>attachments = [], authors = [], has_toc = False, sidebar = True\<rparr> =
     ''\<newline><ac:structured-macro ac:name="column" ac:schema-version="1">\<newline>    <ac:parameter ac:name="width">30%</ac:parameter>\<newline>    <ac:rich-text-body><h1>Authors</h1><p></p></ac:rich-text-body>\<newline></ac:structured-macro>\<newline><ac:structured-macro ac:name="column" ac:schema-version="1">\<newline>    <ac:parameter ac:name="width">800px</ac:parameter>\<newline>    <ac:rich-text-body><p>Hi</p></ac:rich-text-body>\<newline></ac:structured-macro>''\<close>
  using layout_columns [of "''<p>Hi</p>''" "\<lparr>attachments = [], authors = [], has_toc = False, sidebar = False\<rparr>"]
    layout_columns [of "''<p>Hi</p>''" "\<lparr>attachments = [], authors = [], has_toc = False, sidebar = True\<rparr>"]
  by (simp add: render_authors_def)

text \<open>
  C8. The authors fragment is the heading \<open>Authors\<close> and a paragraph holding, for every
  author key in the given order, a profile-picture macro and a user link for that key,
  with \<open><br />\<close> after every entry but the last. With no authors the fragment is still
  the heading and an empty paragraph.
\<close>

theorem authors_fragment:
  \<open>render_authors r =
     ''<h1>Authors</h1><p>'' @
     (if authors r = [] then []
      else concat (map (\<lambda>k. author_template k @ ''<br />'') (butlast (authors r))) @
           author_template (last (authors r))) @
     ''</p>'' \<and>
   (authors r = [] \<longrightarrow> render_authors r = ''<h1>Authors</h1><p></p>'') \<and>
   (\<forall>k. author_template k =
      ''<ac:structured-macro ac:name="profile-picture" ac:schema-version="1">\<newline>                <ac:parameter ac:name="User"><ri:user ri:userkey="'' @ k @ ''" /></ac:parameter>\<newline>            </ac:structured-macro>&nbsp;\<newline>            <ac:link><ri:user ri:userkey="'' @ k @ ''" /></ac:link>'')\<close>
proof -
  have "join ''<br />'' (map author_template (authors r)) =
        (if authors r = [] then []
         else concat (map (\<lambda>k. author_template k @ ''<br />'') (butlast (authors r))) @
              author_template (last (authors r)))"
    by (simp add: join_butlast map_butlast last_map comp_def)
  then show ?thesis
    by (simp add: render_authors_def author_template_def)
qed

theorem authors_fragment_witness:
  \<open>render_authors \<lparr>attachments = [], authors = [''u1'', ''u2''], has_toc = False, sidebar = False\<rparr> =
     ''<h1>Authors</h1><p><ac:structured-macro ac:name="profile-picture" ac:schema-version="1">\<newline>                <ac:parameter ac:name="User"><ri:user ri:userkey="u1" /></ac:parameter>\<newline>            </ac:structured-macro>&nbsp;\<newline>            <ac:link><ri:user ri:userkey="u1" /></ac:link><br /><ac:structured-macro ac:name="profile-picture" ac:schema-version="1">\<newline>                <ac:parameter ac:name="User"><ri:user ri:userkey="u2" /></ac:parameter>\<newline>            </ac:structured-macro>&nbsp;\<newline>            <ac:link><ri:user ri:userkey="u2" /></ac:link></p>'' \<and>
   render_authors \<lparr>attachments = [], authors = [], has_toc = False, sidebar = False\<rparr> =
     ''<h1>Authors</h1><p></p>''\<close>
  using authors_fragment [of "\<lparr>attachments = [], authors = [''u1'', ''u2''], has_toc = False, sidebar = False\<rparr>"]
    authors_fragment [of "\<lparr>attachments = [], authors = [], has_toc = False, sidebar = False\<rparr>"]
  by simp

section \<open>Rendering images\<close>

lemma format_plain:
  "\<forall>c \<in> set a. c \<noteq> CHR ''{'' \<and> c \<noteq> CHR ''}'' \<Longrightarrow>
   format_field Literal name v (a @ b) = map_sum id ((@) a) (format_field Literal name v b)"
proof (induction a)
  case Nil
  show ?case by (simp add: sum.map_ident)
next
  case (Cons c a)
  then show ?case
    by (cases "format_field Literal name v b") simp_all
qed

lemma format_image_tag:
  "format_field Literal ''image_tag'' v ''>{image_tag}</ac:image>'' = Inr (''>'' @ v @ ''</ac:image>'')"
  by simp

lemma set_split_char: "c \<in> set s \<Longrightarrow> c = sep \<or> (\<exists>g \<in> set (split_char sep s). c \<in> set g)"
  by (induction s) (auto split: list.splits if_splits)

lemma split_char_nonempty: "split_char sep s \<noteq> []"
  by (induction s) (auto split: list.splits)

lemma int_digits_chars:
  assumes "int_digits s = Some n" "c \<in> set s"
  shows "c = CHR ''_'' \<or> is_digit c"
proof -
  from assms(1) have "\<forall>g \<in> set (split_char CHR ''_'' s). g \<noteq> [] \<and> (\<forall>c \<in> set g. is_digit c)"
    by (simp add: int_digits_def Let_def split: if_splits)
  with set_split_char [OF assms(2), of "CHR ''_''"] show ?thesis
    by auto
qed

lemma py_int_chars:
  assumes "py_int s = Some n" "c \<in> set s"
  shows "is_int_space c \<or> c \<in> set ''+-_0123456789''"
proof -
  define u where "u = dropWhile is_int_space s"
  define t where "t = rev (dropWhile is_int_space (rev u))"
  have s: "s = takeWhile is_int_space s @ u"
    by (simp add: u_def)
  have "rev u = takeWhile is_int_space (rev u) @ rev t"
    by (simp add: t_def)
  then have "set u = set (takeWhile is_int_space (rev u)) \<union> set t"
    by (metis set_append set_rev)
  with s assms(2) have "c \<in> set (takeWhile is_int_space s) \<or>
      c \<in> set (takeWhile is_int_space (rev u)) \<or> c \<in> set t"
    by (metis Un_iff set_append)
  then have c: "is_int_space c \<or> c \<in> set t"
    by (auto dest: set_takeWhileD)
  have "c \<in> set t \<Longrightarrow> c \<in> set ''+-_0123456789''"
  proof -
    assume ct: "c \<in> set t"
    from assms(1) have p: "(case t of [] \<Rightarrow> None | d # ds \<Rightarrow>
          if d = CHR ''-'' then map_option uminus (int_digits ds)
          else if d = CHR ''+'' then int_digits ds else int_digits t) = Some n"
      unfolding py_int_def Let_def t_def u_def .
    show ?thesis
    proof (cases t)
      case Nil
      with ct show ?thesis by simp
    next
      case (Cons d ds)
      with p ct show ?thesis
        by (auto simp: is_digit_def split: if_splits dest!: int_digits_chars)
    qed
  qed
  with c show ?thesis
    by blast
qed

lemma py_int_no_brace:
  assumes "py_int s \<noteq> None"
  shows "\<forall>c \<in> set s. c \<noteq> CHR ''{'' \<and> c \<noteq> CHR ''}''"
proof
  fix c assume "c \<in> set s"
  moreover from assms obtain n where "py_int s = Some n"
    by auto
  ultimately have "is_int_space c \<or> c \<in> set ''+-_0123456789''"
    by (rule py_int_chars[rotated])
  then show "c \<noteq> CHR ''{'' \<and> c \<noteq> CHR ''}''"
    by (auto simp: is_int_space_def)
qed

lemma extract_cases:
  assumes "extract_height_width alt_text = Inr (height, width)"
  shows "(height = None \<and> width = None) \<or>
         (\<exists>h. height = Some h \<and> (h = [] \<or> py_int h \<noteq> None) \<and>
              (\<forall>w. width = Some w \<longrightarrow> w = [] \<or> py_int w \<noteq> None))"
proof (cases "unpack_size (last (split_char CHR ''|'' alt_text))")
  case (Inl e)
  with assms show ?thesis
    by (simp add: extract_height_width_def)
next
  case (Inr p)
  obtain h w where "p = (h, w)"
    by (cases p)
  with Inr assms show ?thesis
    by (cases w) (auto simp: extract_height_width_def split: if_splits)
qed

lemma extract_sizes_plain:
  assumes "extract_height_width alt_text = Inr (height, width)"
  shows "\<forall>c \<in> set (size_attributes height width). c \<noteq> CHR ''{'' \<and> c \<noteq> CHR ''}''"
proof -
  have plain: "\<forall>c \<in> set x. c \<noteq> CHR ''{'' \<and> c \<noteq> CHR ''}''" if "x = [] \<or> py_int x \<noteq> None" for x
    using that py_int_no_brace [of x] by auto
  from extract_cases [OF assms] show ?thesis
  proof
    assume "height = None \<and> width = None"
    then show ?thesis
      by (simp add: size_attributes_def)
  next
    assume "\<exists>h. height = Some h \<and> (h = [] \<or> py_int h \<noteq> None) \<and>
              (\<forall>w. width = Some w \<longrightarrow> w = [] \<or> py_int w \<noteq> None)"
    then obtain h where h: "height = Some h" "h = [] \<or> py_int h \<noteq> None"
      and w: "\<forall>w. width = Some w \<longrightarrow> w = [] \<or> py_int w \<noteq> None"
      by blast
    have "\<forall>c \<in> set h. c \<noteq> CHR ''{'' \<and> c \<noteq> CHR ''}''"
      using plain h(2) by blast
    moreover have "\<forall>c \<in> set x. c \<noteq> CHR ''{'' \<and> c \<noteq> CHR ''}''" if "width = Some x" for x
      using plain w that by blast
    ultimately show ?thesis
      using h(1) by (cases width) (auto simp: size_attributes_def)
  qed
qed

lemma image_unfold:
  \<open>image netloc_of src title alt_text r =
     (case netloc_of src of
        Inl e \<Rightarrow> Inl e
      | Inr netloc \<Rightarrow>
          (case extract_height_width alt_text of
             Inl e \<Rightarrow> Inl e
           | Inr (height, width) \<Rightarrow>
               Inr (''<ac:image'' @ size_attributes height width @ ''>'' @
                    (if netloc \<noteq> [] then ''<ri:url ri:value="'' @ src @ ''" />''
                     else ''<ri:attachment ri:filename="'' @ basename src @ ''" />'') @
                    ''</ac:image>'',
                    if netloc \<noteq> [] then r else r\<lparr>attachments := attachments r @ [src]\<rparr>)))\<close>
proof (cases "netloc_of src")
  case (Inl e)
  then show ?thesis by (simp add: image_def)
next
  case (Inr netloc)
  show ?thesis
  proof (cases "extract_height_width alt_text")
    case (Inl e)
    with Inr show ?thesis by (simp add: image_def)
  next
    case hw: (Inr p)
    obtain height width where p: "p = (height, width)"
      by (cases p)
    have plain: "\<forall>c \<in> set (''<ac:image'' @ size_attributes height width).
                   c \<noteq> CHR ''{'' \<and> c \<noteq> CHR ''}''"
      using extract_sizes_plain [OF hw [unfolded p]] by simp
    have fmt: "format_field Literal ''image_tag'' v
                 ((''<ac:image'' @ size_attributes height width) @ ''>{image_tag}</ac:image>'') =
               Inr ((''<ac:image'' @ size_attributes height width) @ ''>'' @ v @ ''</ac:image>'')" for v
      by (simp only: format_plain [OF plain] format_image_tag) simp
    have tmpl: \<open>(case width of
              None \<Rightarrow> (case height of None \<Rightarrow> ''<ac:image''
                        | Some h \<Rightarrow> if h \<noteq> [] then ''<ac:image'' @ '' ac:height="'' @ h @ ''"'' else ''<ac:image'')
            | Some w \<Rightarrow>
                if w \<noteq> []
                then (case height of None \<Rightarrow> ''<ac:image''
                      | Some h \<Rightarrow> if h \<noteq> [] then ''<ac:image'' @ '' ac:height="'' @ h @ ''"'' else ''<ac:image'') @
                     '' ac:width="'' @ w @ ''"''
                else (case height of None \<Rightarrow> ''<ac:image''
                      | Some h \<Rightarrow> if h \<noteq> [] then ''<ac:image'' @ '' ac:height="'' @ h @ ''"'' else ''<ac:image'')) =
           ''<ac:image'' @ size_attributes height width\<close>
      by (simp add: size_attributes_def split: option.splits)
    show ?thesis
      unfolding image_def Let_def Inr hw p
      by (simp only: sum.case prod.case tmpl fmt) simp
  qed
qed

lemma image_Inr_iff:
  \<open>image netloc_of src title alt_text r0 = Inr (out, r1) \<longleftrightarrow>
   (\<exists>netloc height width.
      netloc_of src = Inr netloc \<and> extract_height_width alt_text = Inr (height, width) \<and>
      out = ''<ac:image'' @ size_attributes height width @ ''>'' @
            (if netloc \<noteq> [] then ''<ri:url ri:value="'' @ src @ ''" />''
             else ''<ri:attachment ri:filename="'' @ basename src @ ''" />'') @
            ''</ac:image>'' \<and>
      r1 = (if netloc \<noteq> [] then r0 else r0\<lparr>attachments := attachments r0 @ [src]\<rparr>))\<close>
proof (cases "netloc_of src")
  case (Inl e)
  then show ?thesis by (simp add: image_unfold)
next
  case nl: (Inr netloc)
  show ?thesis
  proof (cases "extract_height_width alt_text")
    case (Inl e)
    with nl show ?thesis by (simp add: image_unfold)
  next
    case (Inr p)
    obtain height width where "p = (height, width)"
      by (cases p)
    with nl Inr show ?thesis
      by (simp add: image_unfold) blast
  qed
qed

lemma render_calls_Cons:
  "render_calls lib (c # cs) r = Inr (outs, r') \<longleftrightarrow>
   (\<exists>out r1 outs'. render_call lib c r = Inr (out, r1) \<and>
      render_calls lib cs r1 = Inr (outs', r') \<and> outs = out # outs')"
  by (auto split: sum.splits)

lemma render_call_state:
  assumes "render_call lib c r = Inr (out, r1)"
  shows "attachments r1 =
           attachments r @ filter (\<lambda>src. urlparse_netloc lib src = Inr []) (image_srcs [c]) \<and>
         authors r1 = authors r \<and> sidebar r1 = sidebar r \<and>
         has_toc r1 = (has_toc r \<or> is_header c)"
proof (cases c)
  case (Header t l rw)
  with assms show ?thesis
    by (auto simp: render_call_def header_def is_header_def)
next
  case (BlockCode code lang)
  with assms show ?thesis
    by (auto simp: render_call_def is_header_def)
next
  case (Image src ttl alt)
  with assms have "image (urlparse_netloc lib) src ttl alt r = Inr (out, r1)"
    by (simp add: render_call_def)
  then obtain netloc where "urlparse_netloc lib src = Inr netloc"
    and "r1 = (if netloc \<noteq> [] then r else r\<lparr>attachments := attachments r @ [src]\<rparr>)"
    unfolding image_Inr_iff by blast
  with Image show ?thesis
    by (simp add: is_header_def)
qed

lemma image_srcs_Cons: "image_srcs (c # cs) = image_srcs [c] @ image_srcs cs"
  by (cases c) simp_all

lemma render_calls_state:
  "render_calls lib cs r = Inr (outs, r') \<Longrightarrow>
   length outs = length cs \<and>
   attachments r' =
     attachments r @ filter (\<lambda>src. urlparse_netloc lib src = Inr []) (image_srcs cs) \<and>
   authors r' = authors r \<and> sidebar r' = sidebar r \<and>
   has_toc r' = (has_toc r \<or> (\<exists>c \<in> set cs. is_header c))"
proof (induction cs arbitrary: r outs)
  case Nil
  then show ?case by simp
next
  case (Cons c cs)
  from Cons.prems obtain out r1 outs' where
    c: "render_call lib c r = Inr (out, r1)" and
    cs: "render_calls lib cs r1 = Inr (outs', r')" and
    outs: "outs = out # outs'"
    unfolding render_calls_Cons by blast
  note one = render_call_state [OF c]
  note rest = Cons.IH [OF cs]
  show ?case
    using one rest outs by (subst image_srcs_Cons) auto
qed

lemma render_calls_outputs:
  "render_calls lib cs r = Inr (outs, r') \<Longrightarrow> i < length cs \<Longrightarrow>
   \<exists>r0 r1. render_call lib (cs ! i) r0 = Inr (outs ! i, r1)"
proof (induction cs arbitrary: r outs i)
  case Nil
  then show ?case by simp
next
  case (Cons c cs)
  from Cons.prems(1) obtain out r1 outs' where
    c: "render_call lib c r = Inr (out, r1)" and
    cs: "render_calls lib cs r1 = Inr (outs', r')" and
    outs: "outs = out # outs'"
    unfolding render_calls_Cons by blast
  show ?case
  proof (cases i)
    case 0
    with c outs show ?thesis by auto
  next
    case (Suc j)
    with Cons.prems(2) have "j < length cs" by simp
    from Cons.IH [OF cs this] Suc outs show ?thesis by simp
  qed
qed

lemma image_tag_shape:
  assumes "image netloc_of src title alt_text r0 = Inr (out, r1)"
  shows \<open>\<exists>netloc attrs. netloc_of src = Inr netloc \<and>
           out = ''<ac:image'' @ attrs @ ''>'' @
                 (if netloc \<noteq> [] then ''<ri:url ri:value="'' @ src @ ''" />''
                  else ''<ri:attachment ri:filename="'' @ basename src @ ''" />'') @
                 ''</ac:image>'' \<and>
           r1 = (if netloc \<noteq> [] then r0 else r0\<lparr>attachments := attachments r0 @ [src]\<rparr>)\<close>
  using assms unfolding image_Inr_iff by blast

lemma takeWhile_all: "\<forall>x \<in> set xs. P x \<Longrightarrow> takeWhile P xs = xs"
  by simp

lemma basename_after_slash:
  assumes "CHR ''/'' \<notin> set f"
  shows "basename (d @ CHR ''/'' # f) = f"
proof -
  have h: "takeWhile (\<lambda>c. c \<noteq> CHR ''/'') (rev f @ CHR ''/'' # rev d) = rev f"
    using assms by (subst takeWhile_append2) auto
  have e: "rev (d @ CHR ''/'' # f) = rev f @ CHR ''/'' # rev d"
    by simp
  show ?thesis
    by (simp only: basename_def e h rev_rev_ident)
qed

lemma basename_no_slash:
  assumes "CHR ''/'' \<notin> set f"
  shows "basename f = f"
proof -
  have h: "takeWhile (\<lambda>c. c \<noteq> CHR ''/'') (rev f) = rev f"
    using assms by (intro takeWhile_all) auto
  show ?thesis
    by (simp only: basename_def h rev_rev_ident)
qed

text \<open>
  C1. In a conversion whose calls to the renderer all return: every image call whose
  \<open>src\<close> has a non-empty network location returns an \<open>ac:image\<close> tag around a URL
  reference to \<open>src\<close> and leaves the attachments as they were; every image call whose
  \<open>src\<close> has an empty network location returns an \<open>ac:image\<close> tag around an attachment
  reference to the basename of \<open>src\<close> (what follows its last slash) and appends \<open>src\<close>
  itself to the attachments. So at the end the attachments are those the renderer
  started with (none, for a new renderer) followed by the \<open>src\<close> of every image without
  a network location, in call order, repeated as often as it was rendered.
\<close>

theorem image_references_and_attachments:
  assumes "render_calls lib cs r = Inr (outs, r')"
  shows \<open>attachments r' =
           attachments r @ filter (\<lambda>src. urlparse_netloc lib src = Inr []) (image_srcs cs) \<and>
         length outs = length cs \<and>
         (\<forall>i < length cs. \<forall>src title alt_text. cs ! i = Image src title alt_text \<longrightarrow>
            (\<exists>netloc attrs. urlparse_netloc lib src = Inr netloc \<and>
               outs ! i = ''<ac:image'' @ attrs @ ''>'' @
                 (if netloc \<noteq> [] then ''<ri:url ri:value="'' @ src @ ''" />''
                  else ''<ri:attachment ri:filename="'' @ basename src @ ''" />'') @
                 ''</ac:image>'')) \<and>
         (\<forall>src title alt_text r0 out r1.
            image (urlparse_netloc lib) src title alt_text r0 = Inr (out, r1) \<longrightarrow>
            (\<exists>netloc. urlparse_netloc lib src = Inr netloc \<and>
               r1 = (if netloc \<noteq> [] then r0 else r0\<lparr>attachments := attachments r0 @ [src]\<rparr>))) \<and>
         (\<forall>d f. CHR ''/'' \<notin> set f \<longrightarrow> basename (d @ CHR ''/'' # f) = f \<and> basename f = f)\<close>
proof -
  note st = render_calls_state [OF assms]
  have tags: \<open>\<exists>netloc attrs. urlparse_netloc lib src = Inr netloc \<and>
               outs ! i = ''<ac:image'' @ attrs @ ''>'' @
                 (if netloc \<noteq> [] then ''<ri:url ri:value="'' @ src @ ''" />''
                  else ''<ri:attachment ri:filename="'' @ basename src @ ''" />'') @
                 ''</ac:image>''\<close>
    if "i < length cs" "cs ! i = Image src title alt_text" for i src title alt_text
  proof -
    from render_calls_outputs [OF assms that(1)] that(2)
    obtain r0 r1 where "image (urlparse_netloc lib) src title alt_text r0 = Inr (outs ! i, r1)"
      by (auto simp: render_call_def)
    from image_tag_shape [OF this] show ?thesis
      by blast
  qed
  have one: "\<exists>netloc. urlparse_netloc lib src = Inr netloc \<and>
               r1 = (if netloc \<noteq> [] then r0 else r0\<lparr>attachments := attachments r0 @ [src]\<rparr>)"
    if "image (urlparse_netloc lib) src title alt_text r0 = Inr (out, r1)"
    for src title alt_text r0 out r1
    using image_tag_shape [OF that] by blast
  show ?thesis
    using st tags one basename_after_slash basename_no_slash by blast
qed

theorem image_references_and_attachments_witness:
  \<open>render_calls example_library
      [Image ''http://example.com/a.png'' None ''logo'',
       Image ''images/pic.png'' None ''cap|300'',
       Image ''images/pic.png'' None ''again'']
      (ConfluenceRenderer None False) =
    Inr ([''<ac:image><ri:url ri:value="http://example.com/a.png" /></ac:image>'',
          ''<ac:image ac:height="300"><ri:attachment ri:filename="pic.png" /></ac:image>'',
          ''<ac:image><ri:attachment ri:filename="pic.png" /></ac:image>''],
         \<lparr>attachments = [''images/pic.png'', ''images/pic.png''], authors = [],
          has_toc = False, sidebar = False\<rparr>) \<and>
   attachments \<lparr>attachments = [''images/pic.png'', ''images/pic.png''], authors = [],
          has_toc = False, sidebar = False\<rparr> =
     attachments (ConfluenceRenderer None False) @
     filter (\<lambda>src. urlparse_netloc example_library src = Inr [])
       (image_srcs [Image ''http://example.com/a.png'' None ''logo'',
                    Image ''images/pic.png'' None ''cap|300'',
                    Image ''images/pic.png'' None ''again''])\<close>
proof -
  have run: \<open>render_calls example_library
      [Image ''http://example.com/a.png'' None ''logo'',
       Image ''images/pic.png'' None ''cap|300'',
       Image ''images/pic.png'' None ''again'']
      (ConfluenceRenderer None False) =
    Inr ([''<ac:image><ri:url ri:value="http://example.com/a.png" /></ac:image>'',
          ''<ac:image ac:height="300"><ri:attachment ri:filename="pic.png" /></ac:image>'',
          ''<ac:image><ri:attachment ri:filename="pic.png" /></ac:image>''],
         \<lparr>attachments = [''images/pic.png'', ''images/pic.png''], authors = [],
          has_toc = False, sidebar = False\<rparr>)\<close>
    by code_simp
  from image_references_and_attachments [OF run] run show ?thesis
    by blast
qed

section \<open>The size hint of an image\<close>

lemma split_char_none: "sep \<notin> set s \<Longrightarrow> split_char sep s = [s]"
  by (induction s) auto

lemma split_char_append:
  "split_char sep (a @ sep # b) = split_char sep a @ split_char sep b"
proof (induction a)
  case Nil
  show ?case by simp
next
  case (Cons c a)
  obtain p ps where "split_char sep a = p # ps"
    using split_char_nonempty [of sep a] by (cases "split_char sep a") auto
  with Cons show ?case
    by simp
qed

lemma last_split_char:
  "last (split_char sep s) = rev (takeWhile (\<lambda>c. c \<noteq> sep) (rev s))"
proof (cases "sep \<in> set s")
  case False
  then have tw: "takeWhile (\<lambda>c. c \<noteq> sep) (rev s) = rev s"
    by (intro takeWhile_all) auto
  from False have sp: "split_char sep s = [s]"
    by (rule split_char_none)
  show ?thesis
    unfolding sp tw by simp
next
  case True
  then obtain a b where s: "s = a @ sep # b" and b: "sep \<notin> set b"
    by (meson split_list_last)
  have "takeWhile (\<lambda>c. c \<noteq> sep) (rev b @ sep # rev a) = rev b"
    using b by (subst takeWhile_append2) auto
  moreover have "rev s = rev b @ sep # rev a"
    by (simp add: s)
  moreover have "last (split_char sep s) = b"
    using b by (simp add: s split_char_append split_char_none)
  ultimately show ?thesis
    by (simp only: rev_rev_ident)
qed

lemma split_char_one:
  assumes "sep \<in> set s" "length (filter (\<lambda>c. c = sep) s) \<le> 1"
  shows "split_char sep s =
         [takeWhile (\<lambda>c. c \<noteq> sep) s, tl (dropWhile (\<lambda>c. c \<noteq> sep) s)]"
proof -
  from assms(1) obtain a b where s: "s = a @ sep # b" and a: "sep \<notin> set a"
    by (meson split_list_first)
  from assms(2) have "filter (\<lambda>c. c = sep) b = []"
    by (simp add: s)
  then have b: "sep \<notin> set b"
    by (auto simp: filter_empty_conv)
  have "takeWhile (\<lambda>c. c \<noteq> sep) s = a"
    using a unfolding s by (subst takeWhile_append2) auto
  moreover have "dropWhile (\<lambda>c. c \<noteq> sep) s = sep # b"
    using a unfolding s by (subst dropWhile_append2) auto
  moreover have "split_char sep s = [a, b]"
    using a b by (simp add: s split_char_append split_char_none)
  ultimately show ?thesis
    by simp
qed

lemma filter_eq_pos: "filter (\<lambda>c. c = sep) s \<noteq> [] \<Longrightarrow> sep \<in> set s"
  by (auto simp: filter_empty_conv)

lemma split_char_many:
  assumes "2 \<le> length (filter (\<lambda>c. c = sep) s)"
  shows "3 \<le> length (split_char sep s)"
  using assms
proof (induction s)
  case Nil
  then show ?case by simp
next
  case (Cons c s)
  show ?case
  proof (cases "c = sep")
    case True
    with Cons.prems have "filter (\<lambda>c. c = sep) s \<noteq> []"
      by auto
    then have "sep \<in> set s"
      by (rule filter_eq_pos)
    then obtain a b where "s = a @ sep # b"
      by (meson split_list)
    then have "2 \<le> length (split_char sep s)"
      using split_char_nonempty [of sep a] split_char_nonempty [of sep b]
      by (cases "split_char sep a"; cases "split_char sep b") (auto simp: split_char_append)
    with True show ?thesis by simp
  next
    case False
    with Cons have "3 \<le> length (split_char sep s)" by simp
    with False show ?thesis
      by (cases "split_char sep s") auto
  qed
qed

lemma unpack_size_one:
  assumes "length (filter (\<lambda>c. c = CHR ''x'') parts) \<le> 1"
  shows "unpack_size parts =
         Inr (takeWhile (\<lambda>c. c \<noteq> CHR ''x'') parts,
              if CHR ''x'' \<in> set parts
              then Some (tl (dropWhile (\<lambda>c. c \<noteq> CHR ''x'') parts)) else None)"
proof (cases "CHR ''x'' \<in> set parts")
  case True
  then show ?thesis
    by (simp add: unpack_size_def split_char_one [OF True assms])
next
  case False
  then have tw: "takeWhile (\<lambda>c. c \<noteq> CHR ''x'') parts = parts"
    by (intro takeWhile_all) auto
  show ?thesis
    unfolding unpack_size_def tw using False by simp
qed

lemma unpack_size_many:
  assumes "2 \<le> length (filter (\<lambda>c. c = CHR ''x'') parts)"
  shows "unpack_size parts = Inl ValueError"
proof -
  from assms have "filter (\<lambda>c. c = CHR ''x'') parts \<noteq> []"
    by auto
  then have "CHR ''x'' \<in> set parts"
    by (rule filter_eq_pos)
  moreover from split_char_many [OF assms] have "\<nexists>h w. split_char CHR ''x'' parts = [h, w]"
    by auto
  ultimately show ?thesis
    by (auto simp: unpack_size_def split: list.splits)
qed

lemma extract_raises:
  assumes "2 \<le> length (filter (\<lambda>c. c = CHR ''x'')
                         (rev (takeWhile (\<lambda>c. c \<noteq> CHR ''|'') (rev alt_text))))"
  shows "extract_height_width alt_text = Inl ValueError"
proof -
  have "unpack_size (last (split_char CHR ''|'' alt_text)) = Inl ValueError"
    using assms by (simp only: last_split_char unpack_size_many)
  then show ?thesis
    by (simp add: extract_height_width_def)
qed

lemma extract_returns_iff:
  "(\<exists>p. extract_height_width alt_text = Inr p) \<longleftrightarrow>
   length (filter (\<lambda>c. c = CHR ''x'')
             (rev (takeWhile (\<lambda>c. c \<noteq> CHR ''|'') (rev alt_text)))) \<le> 1"
proof (cases "length (filter (\<lambda>c. c = CHR ''x'')
             (rev (takeWhile (\<lambda>c. c \<noteq> CHR ''|'') (rev alt_text)))) \<le> 1")
  case True
  then have "\<exists>p. unpack_size (last (split_char CHR ''|'' alt_text)) = Inr p"
    by (simp only: last_split_char unpack_size_one) blast
  then have "\<exists>p. extract_height_width alt_text = Inr p"
    by (auto simp: extract_height_width_def)
  with True show ?thesis
    by simp
next
  case False
  then have "extract_height_width alt_text = Inl ValueError"
    by (intro extract_raises) simp
  with False show ?thesis
    by simp
qed

lemma int_digits_too_long:
  assumes "CHR ''_'' \<notin> set s" "int_max_str_digits < length s"
  shows "int_digits s = None"
  using assms by (simp add: int_digits_def split_char_none)

lemma py_int_too_long: "py_int (replicate 4301 CHR ''1'') = None"
proof -
  have t: "rev (dropWhile is_int_space (rev (dropWhile is_int_space (replicate 4301 CHR ''1'')))) =
           CHR ''1'' # replicate 4300 CHR ''1''"
  proof -
    have "\<not> is_int_space CHR ''1''"
      by (simp add: is_int_space_def)
    then have "rev (dropWhile is_int_space (rev (dropWhile is_int_space (replicate 4301 CHR ''1'')))) =
               replicate 4301 CHR ''1''"
      by simp
    also have "replicate 4301 CHR ''1'' = replicate (Suc 4300) CHR ''1''"
      by simp
    finally show ?thesis
      by (simp only: replicate_Suc)
  qed
  have "int_digits (CHR ''1'' # replicate 4300 CHR ''1'') = None"
    by (rule int_digits_too_long) (simp_all add: int_max_str_digits_def)
  then show ?thesis
    unfolding py_int_def Let_def t by simp
qed

lemma size_hint_too_long:
  "extract_height_width (replicate 4301 CHR ''1'') = Inr (None, None)"
proof -
  have seg: "last (split_char CHR ''|'' (replicate 4301 CHR ''1'')) = replicate 4301 CHR ''1''"
    by (subst split_char_none) simp_all
  have un: "unpack_size (replicate 4301 CHR ''1'') = Inr (replicate 4301 CHR ''1'', None)"
    by (simp add: unpack_size_def)
  show ?thesis
    unfolding extract_height_width_def Let_def seg un
    by (simp add: py_int_too_long)
qed

text \<open>
  C3 (as amended). For every alt text whose part after the last \<open>|\<close> (the whole text if
  there is none) holds at most one \<open>x\<close>, the size-hint extraction returns: the height is
  what precedes the \<open>x\<close>, the width what follows it, and without an \<open>x\<close> the height is
  the whole part and there is no width. A component that is not empty and that \<open>int()\<close>
  rejects makes the extraction return neither, and the image tag then carries no height
  and no width attribute; otherwise the tag carries each component that is not empty.
  Any integer literal that \<open>int()\<close> takes is accepted, zero and negative ones too; a
  literal of more digits than the interpreter's limit is one that \<open>int()\<close> rejects.
\<close>

theorem size_hint_extraction:
  assumes "length (filter (\<lambda>c. c = CHR ''x'')
                     (rev (takeWhile (\<lambda>c. c \<noteq> CHR ''|'') (rev alt_text)))) \<le> 1"
  shows \<open>let seg = rev (takeWhile (\<lambda>c. c \<noteq> CHR ''|'') (rev alt_text));
             h = takeWhile (\<lambda>c. c \<noteq> CHR ''x'') seg;
             w = (if CHR ''x'' \<in> set seg
                  then Some (tl (dropWhile (\<lambda>c. c \<noteq> CHR ''x'') seg)) else None);
             unparsable = (\<lambda>s. s \<noteq> [] \<and> py_int s = None);
             discard = (unparsable h \<or> (\<exists>v. w = Some v \<and> unparsable v))
         in extract_height_width alt_text =
              (if discard then Inr (None, None) else Inr (Some h, w)) \<and>
            (\<forall>netloc_of src title r netloc. netloc_of src = Inr netloc \<longrightarrow>
               map_sum id fst (image netloc_of src title alt_text r) =
                 Inr (''<ac:image'' @
                      (if discard then [] else size_attributes (Some h) w) @ ''>'' @
                      (if netloc \<noteq> [] then ''<ri:url ri:value="'' @ src @ ''" />''
                       else ''<ri:attachment ri:filename="'' @ basename src @ ''" />'') @
                      ''</ac:image>''))\<close>
proof -
  define seg where "seg = rev (takeWhile (\<lambda>c. c \<noteq> CHR ''|'') (rev alt_text))"
  define h where "h = takeWhile (\<lambda>c. c \<noteq> CHR ''x'') seg"
  define w where "w = (if CHR ''x'' \<in> set seg
                  then Some (tl (dropWhile (\<lambda>c. c \<noteq> CHR ''x'') seg)) else None)"
  define discard where "discard \<longleftrightarrow> (h \<noteq> [] \<and> py_int h = None) \<or>
     (\<exists>v. w = Some v \<and> v \<noteq> [] \<and> py_int v = None)"
  have seg: "last (split_char CHR ''|'' alt_text) = seg"
    by (simp only: last_split_char seg_def)
  have un: "unpack_size seg = Inr (h, w)"
    using unpack_size_one [of seg] assms by (simp only: seg_def h_def w_def)
  have d: "((h \<noteq> [] \<and> py_int h = None) \<or>
            (case w of None \<Rightarrow> False | Some v \<Rightarrow> v \<noteq> [] \<and> py_int v = None)) = discard"
    by (cases w) (simp_all add: discard_def)
  have ex: "extract_height_width alt_text =
            (if discard then Inr (None, None) else Inr (Some h, w))"
    unfolding extract_height_width_def Let_def seg un
    by (simp only: sum.case prod.case d)
  have attrs: "size_attributes None None = []"
    by (simp add: size_attributes_def)
  have img: \<open>map_sum id fst (image netloc_of src title alt_text r) =
                 Inr (''<ac:image'' @
                      (if discard then [] else size_attributes (Some h) w) @ ''>'' @
                      (if netloc \<noteq> [] then ''<ri:url ri:value="'' @ src @ ''" />''
                       else ''<ri:attachment ri:filename="'' @ basename src @ ''" />'') @
                      ''</ac:image>'')\<close>
    if "netloc_of src = Inr netloc" for netloc_of src title r netloc
    by (cases discard) (simp_all add: image_unfold that ex attrs)
  show ?thesis
    unfolding Let_def seg_def [symmetric] h_def [symmetric] w_def [symmetric]
      discard_def [symmetric]
    using ex img by blast
qed

theorem size_hint_extraction_witness:
  \<open>extract_height_width ''caption|200x400'' = Inr (Some ''200'', Some ''400'') \<and>
   extract_height_width ''caption|abc'' = Inr (None, None)\<close>
proof -
  have a: "length (filter (\<lambda>c. c = CHR ''x'')
                     (rev (takeWhile (\<lambda>c. c \<noteq> CHR ''|'') (rev ''caption|200x400'')))) \<le> 1"
    by code_simp
  have b: "length (filter (\<lambda>c. c = CHR ''x'')
                     (rev (takeWhile (\<lambda>c. c \<noteq> CHR ''|'') (rev ''caption|abc'')))) \<le> 1"
    by code_simp
  have e: "rev (takeWhile (\<lambda>c. c \<noteq> CHR ''|'') (rev ''caption|200x400'')) = ''200x400''"
    "rev (takeWhile (\<lambda>c. c \<noteq> CHR ''|'') (rev ''caption|abc'')) = ''abc''"
    "py_int ''200'' = Some 200" "py_int ''400'' = Some 400" "py_int ''abc'' = None"
    by code_simp+
  from size_hint_extraction [OF a, unfolded Let_def, THEN conjunct1]
  have "extract_height_width ''caption|200x400'' = Inr (Some ''200'', Some ''400'')"
    by (simp add: e)
  moreover from size_hint_extraction [OF b, unfolded Let_def, THEN conjunct1]
  have "extract_height_width ''caption|abc'' = Inr (None, None)"
    by (simp add: e)
  ultimately show ?thesis
    by (rule conjI)
qed

text \<open>
  C3, the claim as stated, fails twice: a part with two \<open>x\<close> makes the extraction
  raise ValueError, and a negative height is kept and emitted.
\<close>

theorem size_hint_raises_and_accepts_negative:
  \<open>extract_height_width ''1x2x3'' = Inl ValueError \<and>
   extract_height_width ''cap|-5'' = Inr (Some ''-5'', None) \<and>
   py_int ''-5'' = Some (- 5) \<and>
   map_sum id fst (image example_netloc ''a.png'' None ''cap|-5'' (ConfluenceRenderer None False)) =
     Inr ''<ac:image ac:height="-5"><ri:attachment ri:filename="a.png" /></ac:image>''\<close>
  by code_simp

section \<open>Metadata handed to convtoconf\<close>

lemma parse_loader_error:
  "yaml_load (raw_yaml (parse_loop (readlines text))) = Inl e \<Longrightarrow> parse yaml_load text = Inl e"
  by (simp add: parse_def)

lemma convtoconf_result:
  assumes "convtoconf lib mistune_markdown markdown_text doc = Inr (page, files)"
  shows "\<exists>keys side calls assemble outs r'.
           mistune_markdown markdown_text = (calls, assemble) \<and>
           render_calls lib calls (ConfluenceRenderer keys side) = Inr (outs, r') \<and>
           page = layout (assemble outs) r' \<and> files = attachments r'"
proof -
  obtain calls assemble where m: "mistune_markdown markdown_text = (calls, assemble)"
    by (cases "mistune_markdown markdown_text")
  from assms have "doc \<noteq> YOther"
    by (auto simp: convtoconf_def)
  then obtain fm where fm: "(case doc of YNone \<Rightarrow> Inr \<lparr>author_keys = None, sidebar_key = None\<rparr>
            | YMapping m \<Rightarrow> Inr m | YOther \<Rightarrow> Inl AttributeError) = Inr fm"
    by (cases doc) auto
  define keys where "keys = (case author_keys fm of None \<Rightarrow> Some [] | Some v \<Rightarrow> v)"
  define side where "side = (case sidebar_key fm of None \<Rightarrow> False | Some b \<Rightarrow> b)"
  from assms have "(case render_calls lib calls (ConfluenceRenderer keys side) of
                      Inl e \<Rightarrow> Inl e
                    | Inr (outs, r') \<Rightarrow> Inr (layout (assemble outs) r', attachments r')) =
                   Inr (page, files)"
    unfolding convtoconf_def fm Let_def m keys_def side_def by simp
  then obtain outs r' where
    "render_calls lib calls (ConfluenceRenderer keys side) = Inr (outs, r')"
    "page = layout (assemble outs) r'" "files = attachments r'"
    by (cases "render_calls lib calls (ConfluenceRenderer keys side)") auto
  with m show ?thesis
    by blast
qed

text \<open>
  C4 (as amended). When the YAML loader returns \<open>None\<close> (there is no metadata),
  \<open>convtoconf\<close> takes the empty mapping: the renderer has no authors and no sidebar, and
  if the renderer calls of the parser all return, the page and the attachments are
  returned. A mapping without the two keys, or with a null \<open>author_keys\<close>, converts the
  same way. Malformed metadata is not recovered: an error of the loader is the result of
  \<open>parse\<close>, and a loaded document that is not a mapping makes \<open>convtoconf\<close> raise
  AttributeError.
\<close>

theorem absent_metadata_defaults:
  assumes "mistune_markdown markdown_text = (calls, assemble)"
    and "render_calls lib calls (ConfluenceRenderer (Some []) False) = Inr (outs, r')"
  shows "convtoconf lib mistune_markdown markdown_text YNone =
           Inr (layout (assemble outs) r', attachments r') \<and>
         authors r' = [] \<and> sidebar r' = False \<and>
         convtoconf lib mistune_markdown markdown_text
             (YMapping \<lparr>author_keys = None, sidebar_key = None\<rparr>) =
           convtoconf lib mistune_markdown markdown_text YNone \<and>
         convtoconf lib mistune_markdown markdown_text
             (YMapping \<lparr>author_keys = Some None, sidebar_key = None\<rparr>) =
           convtoconf lib mistune_markdown markdown_text YNone \<and>
         convtoconf lib mistune_markdown markdown_text YOther = Inl AttributeError \<and>
         (\<forall>yaml_load text e.
            yaml_load (raw_yaml (parse_loop (readlines text))) = Inl e \<longrightarrow>
            parse yaml_load text = (Inl e :: error + (yaml_doc \<times> string)))"
proof -
  have r: "ConfluenceRenderer (Some []) False = ConfluenceRenderer None False"
    by (simp add: ConfluenceRenderer_def)
  have a: "convtoconf lib mistune_markdown markdown_text YNone =
           Inr (layout (assemble outs) r', attachments r')"
    using assms by (simp add: convtoconf_def)
  have b: "authors r' = [] \<and> sidebar r' = False"
    using render_calls_state [OF assms(2)] by (simp add: ConfluenceRenderer_def)
  have c: "convtoconf lib mistune_markdown markdown_text
             (YMapping \<lparr>author_keys = None, sidebar_key = None\<rparr>) =
           convtoconf lib mistune_markdown markdown_text YNone"
    by (simp add: convtoconf_def)
  have d: "convtoconf lib mistune_markdown markdown_text
             (YMapping \<lparr>author_keys = Some None, sidebar_key = None\<rparr>) =
           convtoconf lib mistune_markdown markdown_text YNone"
    by (simp add: convtoconf_def r)
  have e: "convtoconf lib mistune_markdown markdown_text YOther = Inl AttributeError"
    by (simp add: convtoconf_def)
  show ?thesis
    using a b c d e parse_loader_error by blast
qed

theorem absent_metadata_defaults_witness:
  \<open>convtoconf example_library example_markdown ''# Title'' YNone =
     Inr (layout (snd (example_markdown ''# Title'')
            [''<h1>Title</h1>\<newline>'',
             ''<ac:image ac:height="100"><ri:attachment ri:filename="local.png" /></ac:image>''])
            \<lparr>attachments = [''local.png''], authors = [], has_toc = True, sidebar = False\<rparr>,
          [''local.png''])\<close>
proof -
  have m: "example_markdown ''# Title'' =
           ([Header ''Title'' 1 (Some ''Title''), Image ''local.png'' None ''img|100''],
            snd (example_markdown ''# Title''))"
    by (simp add: example_markdown_def)
  have run: \<open>render_calls example_library
               [Header ''Title'' 1 (Some ''Title''), Image ''local.png'' None ''img|100'']
               (ConfluenceRenderer (Some []) False) =
             Inr ([''<h1>Title</h1>\<newline>'',
                   ''<ac:image ac:height="100"><ri:attachment ri:filename="local.png" /></ac:image>''],
                  \<lparr>attachments = [''local.png''], authors = [], has_toc = True, sidebar = False\<rparr>)\<close>
    by code_simp
  from absent_metadata_defaults
    [where mistune_markdown = example_markdown and markdown_text = "''# Title''", OF m run]
  show ?thesis
    by simp
qed

text \<open>
  C4, the claim as stated, fails: a metadata buffer the loader rejects makes \<open>parse\<close>
  raise, and a document that is not a mapping makes \<open>convtoconf\<close> raise.
\<close>

theorem malformed_metadata_raises:
  "parse rejecting_load ''title: [\<newline>---\<newline>Hello\<newline>'' = Inl YAMLError \<and>
   convtoconf example_library example_markdown ''Hello'' YOther = Inl AttributeError"
  by code_simp

section \<open>Code blocks\<close>

lemma crossing_prefix:
  assumes "prefix n (u @ v)" "\<not> prefix n u"
  obtains w where "n = u @ w" "w \<noteq> []" "prefix w v"
proof -
  from assms(1) have "prefix n u \<or> (\<exists>w. n = u @ w \<and> prefix w v)"
    by (simp add: prefix_append)
  with assms(2) obtain w where w: "n = u @ w" "prefix w v"
    by blast
  with assms(2) have "w \<noteq> []"
    by auto
  with w that show ?thesis
    by blast
qed

lemma after_first_skip:
  assumes "c \<notin> set ms" "\<not> sublist (c # ms) a"
  shows "after_first (c # ms) (a @ c # b) = after_first (c # ms) (c # b)"
  using assms(2)
proof (induction a)
  case Nil
  show ?case by simp
next
  case (Cons x a)
  from Cons.prems have np: "\<not> prefix (c # ms) (x # a)" and ns: "\<not> sublist (c # ms) a"
    by (simp_all add: sublist_Cons_right)
  have "\<not> prefix (c # ms) ((x # a) @ c # b)"
  proof
    assume "prefix (c # ms) ((x # a) @ c # b)"
    from crossing_prefix [OF this np] obtain w where
      w: "c # ms = (x # a) @ w" "w \<noteq> []" "prefix w (c # b)"
      by blast
    from w(2,3) obtain w' where "w = c # w'"
      by (cases w) auto
    with w(1) have "c \<in> set ms"
      by auto
    with assms(1) show False
      by simp
  qed
  then have "after_first (c # ms) (x # (a @ c # b)) = after_first (c # ms) (a @ c # b)"
    by (subst after_first.simps) (simp only: append_Cons if_False)
  then show ?case
    using Cons.IH [OF ns] by (simp only: append_Cons)
qed

lemma before_first_prefix: "prefix n h \<Longrightarrow> before_first n h = Some []"
  by (cases h) auto

lemma before_first_intact:
  assumes "d \<notin> set ms" "\<not> sublist (ms @ [d]) a"
  shows "before_first (ms @ [d]) (a @ (ms @ [d]) @ b) = Some a"
  using assms(2)
proof (induction a)
  case Nil
  show ?case
    by (simp add: before_first_prefix)
next
  case (Cons x a)
  let ?n = "ms @ [d]"
  from Cons.prems have np: "\<not> prefix ?n (x # a)" and ns: "\<not> sublist ?n a"
    by (simp_all add: sublist_Cons_right)
  have "\<not> prefix ?n ((x # a) @ ?n @ b)"
  proof
    assume "prefix ?n ((x # a) @ ?n @ b)"
    from crossing_prefix [OF this np] obtain w where
      w: "?n = (x # a) @ w" "w \<noteq> []" "prefix w (?n @ b)"
      by blast
    from w(1) have "length (ms @ [d]) = length ((x # a) @ w)"
      by (rule arg_cong)
    then have "length w \<le> length ms"
      by simp
    with w(3) have "prefix w ms"
      by (auto simp: prefix_append)
    then have "set w \<subseteq> set ms"
      by (rule set_mono_prefix)
    moreover from w(1,2) have "last w = d"
      by (metis last_appendR last_snoc)
    with w(2) have "d \<in> set w"
      by (metis last_in_set)
    ultimately show False
      using assms(1) by blast
  qed
  then have "before_first ?n (x # (a @ ?n @ b)) =
             map_option ((#) x) (before_first ?n (a @ ?n @ b))"
    by (subst before_first.simps) (simp only: append_Cons if_False)
  then show ?case
    using Cons.IH [OF ns] by (simp only: append_Cons option.map)
qed

lemma before_first_broken:
  assumes "sublist n a" "n \<noteq> []"
  shows "\<exists>p. before_first n (a @ x) = Some p \<and> length p < length a"
  using assms(1)
proof (induction a)
  case Nil
  with assms(2) show ?case by simp
next
  case (Cons c a)
  show ?case
  proof (cases "prefix n (c # a @ x)")
    case True
    then show ?thesis by simp
  next
    case False
    then have "\<not> prefix n (c # a)"
      by (metis append_Cons prefix_prefix)
    with Cons.prems have "sublist n a"
      by (simp add: sublist_Cons_right)
    from Cons.IH [OF this] False show ?thesis
      by auto
  qed
qed


lemma cdata_open_found:
  assumes "\<not> sublist ''<![CDATA['' l"
  shows \<open>after_first ''<![CDATA[''
           (''<ac:structured-macro ac:name="code" ac:schema-version="1">\<newline>    <ac:parameter ac:name="language">'' @
            l @ ''</ac:parameter>\<newline>    <ac:plain-text-body><![CDATA['' @ rest) = Some rest\<close>
proof -
  have skip: "after_first ''<![CDATA['' (l @ CHR ''<'' # b) = after_first ''<![CDATA['' (CHR ''<'' # b)"
    for b
    using assms by (intro after_first_skip) simp_all
  show ?thesis
    by (simp add: skip)
qed

text \<open>
  C5 (as amended). \<open>block_code\<close> returns the \<open>code\<close> structured macro with the language in
  its \<open>language\<close> parameter (the empty string for no language) and the code between
  \<open><![CDATA[\<close> and \<open>]]>\<close>, character for character and with nothing escaped. When the
  language does not itself open a CDATA section, the character data read back from the
  macro is the code exactly when the code does not contain \<open>]]>\<close>.
\<close>

theorem code_block_verbatim:
  \<open>block_code code lang =
     ''<ac:structured-macro ac:name="code" ac:schema-version="1">\<newline>    <ac:parameter ac:name="language">'' @
     (case lang of None \<Rightarrow> [] | Some l \<Rightarrow> l) @
     ''</ac:parameter>\<newline>    <ac:plain-text-body><![CDATA['' @ code @
     '']]></ac:plain-text-body>\<newline></ac:structured-macro>\<newline>'' \<and>
   (\<not> sublist ''<![CDATA['' (case lang of None \<Rightarrow> [] | Some l \<Rightarrow> l) \<longrightarrow>
      (cdata_text (block_code code lang) = Some code \<longleftrightarrow> \<not> sublist '']]>'' code))\<close>
proof -
  define l where "l = (case lang of None \<Rightarrow> [] | Some l \<Rightarrow> l)"
  define tail where \<open>tail = ''</ac:plain-text-body>\<newline></ac:structured-macro>\<newline>''\<close>
  have shape: \<open>block_code code lang =
     ''<ac:structured-macro ac:name="code" ac:schema-version="1">\<newline>    <ac:parameter ac:name="language">'' @
     l @ ''</ac:parameter>\<newline>    <ac:plain-text-body><![CDATA['' @ (code @ '']]>'' @ tail)\<close>
    by (simp add: block_code_def l_def tail_def)
  have read: "cdata_text (block_code code lang) = before_first '']]>'' (code @ '']]>'' @ tail)"
    if "\<not> sublist ''<![CDATA['' l"
    unfolding cdata_text_def shape by (simp only: cdata_open_found [OF that] option.case)
  have intact: "before_first '']]>'' (code @ '']]>'' @ tail) = Some code"
    if "\<not> sublist '']]>'' code"
    using before_first_intact [of "CHR ''>''" "'']]''" code tail] that by simp
  have broken: "before_first '']]>'' (code @ '']]>'' @ tail) \<noteq> Some code"
    if "sublist '']]>'' code"
    using before_first_broken [OF that, of "'']]>'' @ tail"] by auto
  have "cdata_text (block_code code lang) = Some code \<longleftrightarrow> \<not> sublist '']]>'' code"
    if "\<not> sublist ''<![CDATA['' l"
    using read [OF that] intact broken by auto
  then show ?thesis
    unfolding l_def [symmetric] by (simp add: block_code_def l_def)
qed

theorem code_block_verbatim_witness:
  \<open>cdata_text (block_code ''print(a[0])'' (Some ''python'')) = Some ''print(a[0])''\<close>
proof -
  have a: "\<not> sublist ''<![CDATA['' (case Some ''python'' of None \<Rightarrow> [] | Some l \<Rightarrow> l)"
    by code_simp
  have b: "\<not> sublist '']]>'' ''print(a[0])''"
    by code_simp
  from code_block_verbatim [of "''print(a[0])''" "Some ''python''"] a b show ?thesis
    by blast
qed

text \<open>
  C5, the claim as stated, fails: a code text that contains \<open>]]>\<close> ends the CDATA
  section early, and the character data read back is only the text before it.
\<close>

theorem code_block_cdata_broken:
  \<open>cdata_text (block_code ''if (a[b[0]]>1) x();'' (Some ''js'')) = Some ''if (a[b[0'' \<and>
   cdata_text (block_code ''if (a[b[0]]>1) x();'' (Some ''js'')) \<noteq> Some ''if (a[b[0]]>1) x();''\<close>
  by code_simp

section \<open>The table of contents\<close>






















end
